theory Spec2Isabelle
  imports Main "HOL-Library.Word"
begin

unbundle bit_operations_syntax

section \<open>DNSASM: the C reference implementation of the DNS wire codec\<close>

text \<open>
  A shallow embedding of \<^verbatim>\<open>dnsasm/src/dnsasm.c\<close> and of the structures of
  \<^verbatim>\<open>dnsasm/include/dnsasm.h\<close>.

  \<^item> \<^verbatim>\<open>uint8_t\<close>, \<^verbatim>\<open>uint16_t\<close>, \<^verbatim>\<open>uint32_t\<close> are words of that width.
  \<^item> A packet \<^verbatim>\<open>(const uint8_t *packet, size_t len)\<close> is the list of its \<open>len\<close> bytes,
    so \<open>len\<close> is \<open>length packet\<close>.
  \<^item> Memory the functions write through a pointer (\<^verbatim>\<open>uint8_t *out\<close>, the \<^verbatim>\<open>name\<close>
    array of a question or record) is a store from index to byte; a function takes the
    store and returns the updated one, so every write and its index is visible.
  \<^item> \<^verbatim>\<open>size_t\<close> values are natural numbers. Inside \<^verbatim>\<open>dnsasm_decompress_name\<close> every
    sum is bounded by \<open>len + 64\<close>, by 256 or by 258, so it cannot wrap for a buffer that
    fits in memory and is written as plain addition. In \<^verbatim>\<open>dnsasm_parse_question\<close> and
    \<^verbatim>\<open>dnsasm_parse_rr\<close> the caller's offset enters the sums unchecked, and the 64-bit
    wrap-around is written out (\<open>size_add\<close>).
  \<^item> The casts \<^verbatim>\<open>(uint16_t)\<close> and \<^verbatim>\<open>(uint32_t)\<close> truncate (\<open>of_nat\<close> on words).
  \<^item> \<^verbatim>\<open>*(const uint16_t *)(packet + pos)\<close> reads two bytes in host order. The header
    file targets x86-64 and ARM64, both little-endian, so the first byte is the low one.
\<close>

type_synonym u8 = "8 word"
type_synonym u16 = "16 word"
type_synonym u32 = "32 word"
type_synonym buffer = "nat \<Rightarrow> u8"

subsection \<open>Constants and structures of dnsasm.h\<close>

definition DNS_HEADER_SIZE :: nat where
  "DNS_HEADER_SIZE = 12"

definition DNS_MAX_NAME_LEN :: nat where
  "DNS_MAX_NAME_LEN = 255"

text \<open>The error codes 0, -1, ..., -5 of \<^verbatim>\<open>dnsasm.h\<close>, in that order.\<close>

datatype dnsasm_error =
    DNSASM_OK
  | DNSASM_ERR_SHORT
  | DNSASM_ERR_NAME
  | DNSASM_ERR_POINTER
  | DNSASM_ERR_LOOP
  | DNSASM_ERR_OVERFLOW

record dnsasm_result =
  result_error :: dnsasm_error
  result_offset :: u32

record dnsasm_header =
  id_hdr :: u16
  flags :: u16
  qdcount :: u16
  ancount :: u16
  nscount :: u16
  arcount :: u16
  qr :: u8
  opcode :: u8
  aa :: u8
  tc :: u8
  rd :: u8
  ra :: u8
  rcode :: u8
  pad_hdr :: u8

record dnsasm_question =
  q_name :: buffer
  q_name_len :: u16
  qtype :: u16
  qclass :: u16
  q_wire_len :: u16

text \<open>
  \<open>rdata\<close> is a pointer into the packet: it is modelled by the index it points at, so
  that the record holds a view of the packet and no bytes of its own.
\<close>

record dnsasm_rr =
  rr_name :: buffer
  rr_name_len :: u16
  rtype :: u16
  rclass :: u16
  ttl :: u32
  rdlength :: u16
  rdata :: nat
  rr_wire_len :: u16

subsection \<open>Byte order and memory primitives\<close>

definition bswap16 :: "u16 \<Rightarrow> u16" where
  "bswap16 x = drop_bit 8 x OR push_bit 8 x"

definition bswap32 :: "u32 \<Rightarrow> u32" where
  "bswap32 x =
     (drop_bit 24 x AND 0xff) OR (drop_bit 8 x AND 0xff00) OR
     (push_bit 8 x AND 0xff0000) OR (push_bit 24 x AND 0xff000000)"

definition load16 :: "u8 list \<Rightarrow> nat \<Rightarrow> u16" where
  "load16 packet pos = ucast (packet ! pos) OR push_bit 8 (ucast (packet ! (pos + 1)))"

definition load32 :: "u8 list \<Rightarrow> nat \<Rightarrow> u32" where
  "load32 packet pos =
     ucast (packet ! pos) OR push_bit 8 (ucast (packet ! (pos + 1))) OR
     push_bit 16 (ucast (packet ! (pos + 2))) OR push_bit 24 (ucast (packet ! (pos + 3)))"

definition store16 :: "buffer \<Rightarrow> nat \<Rightarrow> u16 \<Rightarrow> buffer" where
  "store16 out pos v = out(pos := ucast v, pos + 1 := ucast (drop_bit 8 v))"

definition memcpy :: "buffer \<Rightarrow> nat \<Rightarrow> u8 list \<Rightarrow> buffer" where
  "memcpy out dst bs =
     (\<lambda>i. if dst \<le> i \<and> i < dst + length bs then bs ! (i - dst) else out i)"

text \<open>Addition of two \<^verbatim>\<open>size_t\<close> values on a 64-bit target.\<close>

definition size_add :: "nat \<Rightarrow> nat \<Rightarrow> nat" where
  "size_add a b = (a + b) mod 2 ^ 64"

text \<open>
  Whether the \<open>n\<close> bytes from \<open>pos\<close> lie inside the packet. The C code reads through a
  raw pointer; a read outside the buffer is undefined behaviour and is the value \<open>None\<close>
  of the functions below.
\<close>

definition in_packet :: "u8 list \<Rightarrow> nat \<Rightarrow> nat \<Rightarrow> bool" where
  "in_packet packet pos n = (pos + n \<le> length packet)"

subsection \<open>dnsasm\_parse\_header and dnsasm\_build\_header\<close>

definition dnsasm_parse_header ::
  "u8 list \<Rightarrow> dnsasm_header \<Rightarrow> dnsasm_error \<times> dnsasm_header" where
  "dnsasm_parse_header packet out =
     (if length packet < DNS_HEADER_SIZE then (DNSASM_ERR_SHORT, out)
      else
        (let out1 = out\<lparr>id_hdr := bswap16 (load16 packet 0),
                         flags := bswap16 (load16 packet 2),
                         qdcount := bswap16 (load16 packet 4),
                         ancount := bswap16 (load16 packet 6),
                         nscount := bswap16 (load16 packet 8),
                         arcount := bswap16 (load16 packet 10)\<rparr>;
             flags = flags out1
         in (DNSASM_OK,
             out1\<lparr>qr := ucast (drop_bit 15 flags AND 1),
                  opcode := ucast (drop_bit 11 flags AND 0x0F),
                  aa := ucast (drop_bit 10 flags AND 1),
                  tc := ucast (drop_bit 9 flags AND 1),
                  rd := ucast (drop_bit 8 flags AND 1),
                  ra := ucast (drop_bit 7 flags AND 1),
                  rcode := ucast (flags AND 0x0F)\<rparr>)))"

definition dnsasm_build_header ::
  "buffer \<Rightarrow> u16 \<Rightarrow> u16 \<Rightarrow> u16 \<Rightarrow> u16 \<Rightarrow> u16 \<Rightarrow> u16 \<Rightarrow> nat \<times> buffer" where
  "dnsasm_build_header out ident flgs qd an ns ar =
     (let out = store16 out 0 (bswap16 ident);
          out = store16 out 2 (bswap16 flgs);
          out = store16 out 4 (bswap16 qd);
          out = store16 out 6 (bswap16 an);
          out = store16 out 8 (bswap16 ns);
          out = store16 out 10 (bswap16 ar)
      in (DNS_HEADER_SIZE, out))"

subsection \<open>dnsasm\_decompress\_name\<close>

text \<open>
  The \<^verbatim>\<open>while (pos < len)\<close> loop. The arguments after the packet are the local variables
  \<open>pos\<close>, \<open>out_pos\<close>, \<open>wire_len\<close>, \<open>counting_wire\<close>, \<open>ptr_count\<close> and the memory behind
  \<open>out\<close>. The value is the error code the function is about to return, the memory behind
  \<open>out\<close>, and \<open>out_pos\<close> and \<open>wire_len\<close> as they stand when the loop is left. A
  \<^verbatim>\<open>return result\<close> inside the loop is a branch with an error code; \<^verbatim>\<open>break\<close> and the
  loop condition turning false both lead to the code after the loop, which returns
  \<open>DNSASM_OK\<close>.
\<close>

function decompress_loop ::
  "u8 list \<Rightarrow> nat \<Rightarrow> nat \<Rightarrow> nat \<Rightarrow> bool \<Rightarrow> nat \<Rightarrow> buffer
     \<Rightarrow> dnsasm_error \<times> buffer \<times> nat \<times> nat" where
  "decompress_loop packet pos out_pos wire_len counting_wire ptr_count out =
     (if pos < length packet then
        (let label_len = packet ! pos in
         if label_len AND 0xC0 = 0xC0 then
           (if pos + 1 \<ge> length packet then (DNSASM_ERR_SHORT, out, out_pos, wire_len)
            else
              (let ptr = (push_bit 8 (ucast (label_len AND 0x3F))
                            OR ucast (packet ! (pos + 1)) :: u16);
                   wire_len' = (if counting_wire then wire_len + 2 else wire_len);
                   ptr_count' = ptr_count + 1
               in if ptr_count' > 127 then (DNSASM_ERR_LOOP, out, out_pos, wire_len')
                  else if unat ptr \<ge> pos then (DNSASM_ERR_POINTER, out, out_pos, wire_len')
                  else decompress_loop packet (unat ptr) out_pos wire_len' False ptr_count' out))
         else if label_len = 0 then
           (DNSASM_OK, out(out_pos := 0), out_pos + 1,
            if counting_wire then wire_len + 1 else wire_len)
         else if unat label_len > 63 then (DNSASM_ERR_NAME, out, out_pos, wire_len)
         else if pos + 1 + unat label_len > length packet then
           (DNSASM_ERR_SHORT, out, out_pos, wire_len)
         else if out_pos + 1 + unat label_len > DNS_MAX_NAME_LEN then
           (DNSASM_ERR_OVERFLOW, out, out_pos, wire_len)
         else
           decompress_loop packet (pos + 1 + unat label_len) (out_pos + 1 + unat label_len)
             (if counting_wire then wire_len + (1 + unat label_len) else wire_len)
             counting_wire ptr_count
             (memcpy (out(out_pos := label_len)) (out_pos + 1)
                (take (unat label_len) (drop (pos + 1) packet))))
      else (DNSASM_OK, out, out_pos, wire_len))"
  by pat_completeness auto
termination
  by (relation "measure (\<lambda>(packet, pos, out_pos, wire_len, counting_wire, ptr_count, out).
         (127 - ptr_count) * 256 + (255 - out_pos))")
     (auto simp: DNS_MAX_NAME_LEN_def)

text \<open>
  The function itself: the locals are initialised, the loop runs, and only when the loop
  is left without an error are \<^verbatim>\<open>*out_len\<close> and \<^verbatim>\<open>result.offset\<close> written. On an error
  \<^verbatim>\<open>result.offset\<close> keeps its initial 0 and \<^verbatim>\<open>*out_len\<close> keeps the caller's value, while
  the bytes already copied to \<open>out\<close> stay there.
\<close>

definition dnsasm_decompress_name ::
  "u8 list \<Rightarrow> nat \<Rightarrow> buffer \<Rightarrow> u16 \<Rightarrow> dnsasm_result \<times> buffer \<times> u16" where
  "dnsasm_decompress_name packet offset out out_len =
     (case decompress_loop packet offset 0 0 True 0 out of
        (err, out', out_pos, wire_len) \<Rightarrow>
          if err = DNSASM_OK then
            (\<lparr>result_error = DNSASM_OK, result_offset = of_nat wire_len\<rparr>,
             out', of_nat out_pos)
          else (\<lparr>result_error = err, result_offset = 0\<rparr>, out', out_len))"

text \<open>
  The same loop with a budget of iterations: \<open>None\<close> when the budget is used up before
  the loop is left. It serves to state how many iterations the loop can take.
\<close>

fun decompress_fuel ::
  "nat \<Rightarrow> u8 list \<Rightarrow> nat \<Rightarrow> nat \<Rightarrow> nat \<Rightarrow> bool \<Rightarrow> nat \<Rightarrow> buffer
     \<Rightarrow> (dnsasm_error \<times> buffer \<times> nat \<times> nat) option" where
  "decompress_fuel 0 packet pos out_pos wire_len counting_wire ptr_count out = None"
| "decompress_fuel (Suc fuel) packet pos out_pos wire_len counting_wire ptr_count out =
     (if pos < length packet then
        (let label_len = packet ! pos in
         if label_len AND 0xC0 = 0xC0 then
           (if pos + 1 \<ge> length packet then Some (DNSASM_ERR_SHORT, out, out_pos, wire_len)
            else
              (let ptr = (push_bit 8 (ucast (label_len AND 0x3F))
                            OR ucast (packet ! (pos + 1)) :: u16);
                   wire_len' = (if counting_wire then wire_len + 2 else wire_len);
                   ptr_count' = ptr_count + 1
               in if ptr_count' > 127 then Some (DNSASM_ERR_LOOP, out, out_pos, wire_len')
                  else if unat ptr \<ge> pos then
                    Some (DNSASM_ERR_POINTER, out, out_pos, wire_len')
                  else decompress_fuel fuel packet (unat ptr) out_pos wire_len' False
                         ptr_count' out))
         else if label_len = 0 then
           Some (DNSASM_OK, out(out_pos := 0), out_pos + 1,
                 if counting_wire then wire_len + 1 else wire_len)
         else if unat label_len > 63 then Some (DNSASM_ERR_NAME, out, out_pos, wire_len)
         else if pos + 1 + unat label_len > length packet then
           Some (DNSASM_ERR_SHORT, out, out_pos, wire_len)
         else if out_pos + 1 + unat label_len > DNS_MAX_NAME_LEN then
           Some (DNSASM_ERR_OVERFLOW, out, out_pos, wire_len)
         else
           decompress_fuel fuel packet (pos + 1 + unat label_len)
             (out_pos + 1 + unat label_len)
             (if counting_wire then wire_len + (1 + unat label_len) else wire_len)
             counting_wire ptr_count
             (memcpy (out(out_pos := label_len)) (out_pos + 1)
                (take (unat label_len) (drop (pos + 1) packet))))
      else Some (DNSASM_OK, out, out_pos, wire_len))"

subsection \<open>dnsasm\_parse\_question and dnsasm\_parse\_rr\<close>

definition dnsasm_parse_question ::
  "u8 list \<Rightarrow> nat \<Rightarrow> dnsasm_question \<Rightarrow> (dnsasm_result \<times> dnsasm_question) option" where
  "dnsasm_parse_question packet offset out =
     (case dnsasm_decompress_name packet offset (q_name out) (q_name_len out) of
        (result, name', name_len') \<Rightarrow>
          (let out1 = out\<lparr>q_name := name', q_name_len := name_len'\<rparr> in
           if result_error result \<noteq> DNSASM_OK then Some (result, out1)
           else
             (let wire_len = unat (result_offset result);
                  pos = size_add offset wire_len
              in if size_add pos 4 > length packet then
                   Some (\<lparr>result_error = DNSASM_ERR_SHORT, result_offset = 0\<rparr>, out1)
                 else if \<not> in_packet packet pos 4 then None
                 else
                   Some (\<lparr>result_error = DNSASM_OK,
                           result_offset = of_nat (size_add pos 4)\<rparr>,
                         out1\<lparr>qtype := bswap16 (load16 packet pos),
                              qclass := bswap16 (load16 packet (pos + 2)),
                              q_wire_len := of_nat (wire_len + 4)\<rparr>))))"

definition dnsasm_parse_rr ::
  "u8 list \<Rightarrow> nat \<Rightarrow> dnsasm_rr \<Rightarrow> (dnsasm_result \<times> dnsasm_rr) option" where
  "dnsasm_parse_rr packet offset out =
     (case dnsasm_decompress_name packet offset (rr_name out) (rr_name_len out) of
        (result, name', name_len') \<Rightarrow>
          (let out1 = out\<lparr>rr_name := name', rr_name_len := name_len'\<rparr> in
           if result_error result \<noteq> DNSASM_OK then Some (result, out1)
           else
             (let wire_len = unat (result_offset result);
                  pos = size_add offset wire_len
              in if size_add pos 10 > length packet then
                   Some (\<lparr>result_error = DNSASM_ERR_SHORT, result_offset = 0\<rparr>, out1)
                 else if \<not> in_packet packet pos 10 then None
                 else
                   (let out2 = out1\<lparr>rtype := bswap16 (load16 packet pos),
                                     rclass := bswap16 (load16 packet (pos + 2)),
                                     ttl := bswap32 (load32 packet (pos + 4)),
                                     rdlength := bswap16 (load16 packet (pos + 8))\<rparr>;
                        pos = size_add pos 10
                    in if size_add pos (unat (rdlength out2)) > length packet then
                         Some (\<lparr>result_error = DNSASM_ERR_SHORT, result_offset = 0\<rparr>, out2)
                       else
                         Some (\<lparr>result_error = DNSASM_OK,
                                 result_offset = of_nat (size_add pos (unat (rdlength out2)))\<rparr>,
                               out2\<lparr>rdata := pos,
                                    rr_wire_len :=
                                      of_nat (wire_len + 10 + unat (rdlength out2))\<rparr>)))))"

subsection \<open>dnsasm\_name\_equal\<close>

text \<open>The \<^verbatim>\<open>for\<close> loop, from index \<open>i\<close>; 1 is "not equal" and 0 is "equal".\<close>

function name_equal_loop :: "u8 list \<Rightarrow> u8 list \<Rightarrow> nat \<Rightarrow> int" where
  "name_equal_loop a b i =
     (if i < length a then
        (let ca = a ! i;
             cb = b ! i;
             ca = (if ca \<ge> 0x41 \<and> ca \<le> 0x5A then ca + 32 else ca);
             cb = (if cb \<ge> 0x41 \<and> cb \<le> 0x5A then cb + 32 else cb)
         in if ca \<noteq> cb then 1 else name_equal_loop a b (i + 1))
      else 0)"
  by pat_completeness auto
termination
  by (relation "measure (\<lambda>(a, b, i). length a - i)") auto

definition dnsasm_name_equal :: "u8 list \<Rightarrow> u8 list \<Rightarrow> int" where
  "dnsasm_name_equal a b = (if length a \<noteq> length b then 1 else name_equal_loop a b 0)"

section \<open>Wire-format vocabulary\<close>

text \<open>
  The notions the statements about names are written in: what it means that a packet
  holds labels, a compression pointer or a name terminator at some position.
\<close>

text \<open>
  The 14-bit target of a pointer whose two bytes are \<open>b0\<close> and \<open>b1\<close>: the low six bits
  of the first byte, then the second byte.
\<close>

definition pointer_target :: "u8 \<Rightarrow> u8 \<Rightarrow> nat" where
  "pointer_target b0 b1 = (unat b0 mod 64) * 256 + unat b1"

definition valid_label :: "u8 list \<Rightarrow> bool" where
  "valid_label l = (1 \<le> length l \<and> length l \<le> 63)"

definition encode_label :: "u8 list \<Rightarrow> u8 list" where
  "encode_label l = of_nat (length l) # l"

definition encode_labels :: "u8 list list \<Rightarrow> u8 list" where
  "encode_labels ls = concat (map encode_label ls)"

definition bytes_at :: "u8 list \<Rightarrow> nat \<Rightarrow> u8 list \<Rightarrow> bool" where
  "bytes_at packet pos bs =
     (pos + length bs \<le> length packet \<and> take (length bs) (drop pos packet) = bs)"

text \<open>A two-byte pointer at \<open>pos\<close>, both bytes inside the packet, with the given target.\<close>

definition pointer_at :: "u8 list \<Rightarrow> nat \<Rightarrow> nat \<Rightarrow> bool" where
  "pointer_at packet pos target =
     (pos + 1 < length packet \<and> packet ! pos AND 0xC0 = 0xC0 \<and>
      pointer_target (packet ! pos) (packet ! (pos + 1)) = target)"

definition terminator_at :: "u8 list \<Rightarrow> nat \<Rightarrow> bool" where
  "terminator_at packet pos = (pos < length packet \<and> packet ! pos = 0)"

text \<open>A name without pointers: valid labels, then the zero byte.\<close>

definition plain_name_at :: "u8 list \<Rightarrow> nat \<Rightarrow> u8 list list \<Rightarrow> bool" where
  "plain_name_at packet pos ls =
     (list_all valid_label ls \<and> bytes_at packet pos (encode_labels ls) \<and>
      terminator_at packet (pos + length (encode_labels ls)))"

text \<open>
  A chain of backward hops: from \<open>pos\<close> the packet holds the valid labels \<open>ls\<close>; for every
  hop \<open>(t, ms)\<close> a pointer follows whose target \<open>t\<close> lies strictly before the pointer, and
  at \<open>t\<close> the packet holds the valid labels \<open>ms\<close>, and so on. \<open>chain_end\<close> is the position
  after the labels of the last hop, where the chain says nothing about the packet.
\<close>

fun chain_at :: "u8 list \<Rightarrow> nat \<Rightarrow> u8 list list \<Rightarrow> (nat \<times> u8 list list) list \<Rightarrow> bool" where
  "chain_at packet pos ls [] =
     (list_all valid_label ls \<and> bytes_at packet pos (encode_labels ls))"
| "chain_at packet pos ls ((t, ms) # hops) =
     (list_all valid_label ls \<and> bytes_at packet pos (encode_labels ls) \<and>
      pointer_at packet (pos + length (encode_labels ls)) t \<and>
      t < pos + length (encode_labels ls) \<and>
      chain_at packet t ms hops)"

fun chain_end :: "nat \<Rightarrow> u8 list list \<Rightarrow> (nat \<times> u8 list list) list \<Rightarrow> nat" where
  "chain_end pos ls [] = pos + length (encode_labels ls)"
| "chain_end pos ls ((t, ms) # hops) = chain_end t ms hops"

definition chain_labels :: "u8 list list \<Rightarrow> (nat \<times> u8 list list) list \<Rightarrow> u8 list list" where
  "chain_labels ls hops = ls @ concat (map snd hops)"

definition chain_wire :: "u8 list list \<Rightarrow> (nat \<times> u8 list list) list \<Rightarrow> nat" where
  "chain_wire ls hops = length (encode_labels ls) + (if hops = [] then 0 else 2)"

text \<open>
  The case folding of the comparison, and the ASCII letters.
\<close>

definition ascii_lower :: "u8 \<Rightarrow> u8" where
  "ascii_lower c = (if 0x41 \<le> c \<and> c \<le> 0x5A then c + 32 else c)"

definition ascii_letter :: "u8 \<Rightarrow> bool" where
  "ascii_letter c = ((0x41 \<le> c \<and> c \<le> 0x5A) \<or> (0x61 \<le> c \<and> c \<le> 0x7A))"

text \<open>The two bytes of a 16-bit value in network order, and the twelve bytes of a header.\<close>

definition be16 :: "u16 \<Rightarrow> u8 list" where
  "be16 x = [ucast (drop_bit 8 x), ucast x]"

definition header_bytes :: "u16 \<Rightarrow> u16 \<Rightarrow> u16 \<Rightarrow> u16 \<Rightarrow> u16 \<Rightarrow> u16 \<Rightarrow> u8 list" where
  "header_bytes ident flgs qd an ns ar =
     be16 ident @ be16 flgs @ be16 qd @ be16 an @ be16 ns @ be16 ar"

text \<open>The 16-bit and the 32-bit value that stand at \<open>pos\<close> in network order.\<close>

definition be_word16 :: "u8 list \<Rightarrow> nat \<Rightarrow> u16" where
  "be_word16 packet pos = push_bit 8 (ucast (packet ! pos)) OR ucast (packet ! (pos + 1))"

definition be_word32 :: "u8 list \<Rightarrow> nat \<Rightarrow> u32" where
  "be_word32 packet pos =
     push_bit 24 (ucast (packet ! pos)) OR push_bit 16 (ucast (packet ! (pos + 1))) OR
     push_bit 8 (ucast (packet ! (pos + 2))) OR ucast (packet ! (pos + 3))"

section \<open>Test data\<close>

text \<open>
  An output area holding zeros, and the two sample packets of the console program
  (\<^verbatim>\<open>dnsasm/console/main.c\<close>).
\<close>

definition zero_buffer :: buffer where
  "zero_buffer = (\<lambda>i. 0)"

definition sample_query :: "u8 list" where
  "sample_query =
     [0x12, 0x34, 0x01, 0x00, 0x00, 0x01, 0x00, 0x00, 0x00, 0x00, 0x00, 0x00,
      0x03, 0x77, 0x77, 0x77,
      0x07, 0x65, 0x78, 0x61, 0x6d, 0x70, 0x6c, 0x65,
      0x03, 0x63, 0x6f, 0x6d,
      0x00,
      0x00, 0x01, 0x00, 0x01]"

definition sample_response :: "u8 list" where
  "sample_response =
     [0x12, 0x34, 0x81, 0x80, 0x00, 0x01, 0x00, 0x01, 0x00, 0x00, 0x00, 0x00,
      0x03, 0x77, 0x77, 0x77,
      0x07, 0x65, 0x78, 0x61, 0x6d, 0x70, 0x6c, 0x65,
      0x03, 0x63, 0x6f, 0x6d,
      0x00,
      0x00, 0x01, 0x00, 0x01,
      0xc0, 0x0c,
      0x00, 0x01, 0x00, 0x01,
      0x00, 0x00, 0x01, 0x2c,
      0x00, 0x04,
      0x5d, 0xb8, 0xd8, 0x22]"

definition www_example_com :: "u8 list list" where
  "www_example_com =
     [[0x77, 0x77, 0x77], [0x65, 0x78, 0x61, 0x6d, 0x70, 0x6c, 0x65], [0x63, 0x6f, 0x6d]]"

text \<open>Four labels of 63, 63, 63 and 62 bytes and the terminator: 256 bytes on the wire.\<close>

definition long_name :: "u8 list" where
  "long_name =
     (63 # replicate 63 0x61) @ (63 # replicate 63 0x61) @ (63 # replicate 63 0x61) @
     (62 # replicate 62 0x61) @ [0]"


definition ladder_hops :: "nat \<Rightarrow> (nat \<times> u8 list list) list" where
  "ladder_hops n = map (\<lambda>k. (2 * k, [])) (rev [0..<n])"


text \<open>
  Output structures holding zeros, and a record with the root name and 65535 bytes of
  RDATA: 65546 bytes in all.
\<close>

definition zero_question :: dnsasm_question where
  "zero_question =
     \<lparr>q_name = zero_buffer, q_name_len = 0, qtype = 0, qclass = 0, q_wire_len = 0\<rparr>"

definition zero_rr :: dnsasm_rr where
  "zero_rr =
     \<lparr>rr_name = zero_buffer, rr_name_len = 0, rtype = 0, rclass = 0, ttl = 0, rdlength = 0,
      rdata = 0, rr_wire_len = 0\<rparr>"

definition big_rr :: "u8 list" where
  "big_rr = [0, 0, 1, 0, 1, 0, 0, 0, 0, 0xFF, 0xFF] @ replicate 65535 0"

declare decompress_loop.simps [simp del]

declare name_equal_loop.simps [simp del]

section \<open>Termination of the decompression loop\<close>

text \<open>
  A pointer that is followed raises \<open>ptr_count\<close>, which may not pass 127; a label that is
  copied raises \<open>out_pos\<close> by at least 2, which may not pass 255. So the sum of what is
  left of both budgets falls with every iteration that does not leave the loop.
\<close>

lemma decompress_fuel_enough:
  "(127 - ptr_count) + (255 - out_pos) < fuel \<Longrightarrow>
   decompress_fuel fuel packet pos out_pos wire_len counting_wire ptr_count out =
   Some (decompress_loop packet pos out_pos wire_len counting_wire ptr_count out)"
proof (induction packet pos out_pos wire_len counting_wire ptr_count out arbitrary: fuel
       rule: decompress_loop.induct)
  case (1 packet pos out_pos wire_len counting_wire ptr_count out)
  from "1.prems" obtain n where fuel: "fuel = Suc n"
    by (cases fuel) auto
  show ?case
    unfolding fuel
    apply (subst decompress_loop.simps)
    apply (subst decompress_fuel.simps)
    using "1.prems" "1.IH"(1)[OF _ refl _ _ refl refl refl, of n] "1.IH"(2)[OF _ refl, of n]
    apply (auto simp: Let_def fuel DNS_MAX_NAME_LEN_def simp del: decompress_fuel.simps)
    done
qed

text \<open>
  C1. For every packet, length and starting offset the loop of
  \<^verbatim>\<open>dnsasm_decompress_name\<close> terminates: started as the function starts it, it has
  returned after at most 383 iterations, with the value of the total function
  \<open>decompress_loop\<close>. No input can make it run forever.
\<close>

theorem decompress_name_terminates:
  "decompress_fuel 383 packet offset 0 0 True 0 out =
   Some (decompress_loop packet offset 0 0 True 0 out)"
  by (rule decompress_fuel_enough) simp

section \<open>The decompression loop, branch by branch\<close>

text \<open>The pointer word the code assembles with shift and or is the 14-bit target.\<close>

lemma m63: "(0x3F :: u8) = mask 6"
  by (simp add: mask_eq_exp_minus_1)

lemma ptr_nat:
  "unat (push_bit 8 (ucast ((b0 :: u8) AND 0x3F)) OR ucast (b1 :: u8) :: u16)
     = push_bit 8 (take_bit 6 (unat b0)) OR unat b1"
  unfolding m63
  by (rule bit_eqI) (auto simp: bit_simps dest: bit_imp_le_length)

lemma ptr_value:
  "unat (push_bit 8 (ucast (b0 AND 0x3F)) OR ucast b1 :: u16) = pointer_target (b0 :: u8) (b1 :: u8)"
proof -
  have "push_bit 8 (take_bit 6 (unat b0)) OR unat b1 = push_bit 8 (take_bit 6 (unat b0)) + unat b1"
    by (rule disjunctive_add_eq_or [symmetric], rule bit_eqI)
       (auto simp: bit_simps dest: bit_imp_le_length)
  also have "\<dots> = pointer_target b0 b1"
    by (simp add: pointer_target_def push_bit_eq_mult take_bit_eq_mod)
  finally show ?thesis
    by (simp only: ptr_nat)
qed

lemma ptr_bound: "pointer_target b0 b1 < 16384"
proof -
  have "unat b1 < 256" using unsigned_less[of b1] by simp
  moreover have "unat b0 mod 64 < 64" by simp
  ultimately show ?thesis unfolding pointer_target_def by linarith
qed

text \<open>One equation for each way through the loop body.\<close>

lemma loop_stop:
  "length packet \<le> pos \<Longrightarrow>
   decompress_loop packet pos out_pos wire_len counting_wire ptr_count out =
   (DNSASM_OK, out, out_pos, wire_len)"
  by (subst decompress_loop.simps) simp

lemma loop_pointer:
  "pos < length packet \<Longrightarrow> packet ! pos AND 0xC0 = 0xC0 \<Longrightarrow>
   decompress_loop packet pos out_pos wire_len counting_wire ptr_count out =
   (if length packet \<le> pos + 1 then (DNSASM_ERR_SHORT, out, out_pos, wire_len)
    else if 127 \<le> ptr_count then
      (DNSASM_ERR_LOOP, out, out_pos, if counting_wire then wire_len + 2 else wire_len)
    else if pos \<le> pointer_target (packet ! pos) (packet ! (pos + 1)) then
      (DNSASM_ERR_POINTER, out, out_pos, if counting_wire then wire_len + 2 else wire_len)
    else decompress_loop packet (pointer_target (packet ! pos) (packet ! (pos + 1))) out_pos
           (if counting_wire then wire_len + 2 else wire_len) False (ptr_count + 1) out)"
  by (subst decompress_loop.simps) (simp add: Let_def ptr_value)

lemma loop_terminator:
  "pos < length packet \<Longrightarrow> packet ! pos = 0 \<Longrightarrow>
   decompress_loop packet pos out_pos wire_len counting_wire ptr_count out =
   (DNSASM_OK, out(out_pos := 0), out_pos + 1,
    if counting_wire then wire_len + 1 else wire_len)"
  by (subst decompress_loop.simps) simp

lemma loop_label:
  "pos < length packet \<Longrightarrow> packet ! pos AND 0xC0 \<noteq> 0xC0 \<Longrightarrow> packet ! pos \<noteq> 0 \<Longrightarrow>
   decompress_loop packet pos out_pos wire_len counting_wire ptr_count out =
   (if 63 < unat (packet ! pos) then (DNSASM_ERR_NAME, out, out_pos, wire_len)
    else if length packet < pos + 1 + unat (packet ! pos) then
      (DNSASM_ERR_SHORT, out, out_pos, wire_len)
    else if 255 < out_pos + 1 + unat (packet ! pos) then
      (DNSASM_ERR_OVERFLOW, out, out_pos, wire_len)
    else decompress_loop packet (pos + 1 + unat (packet ! pos))
           (out_pos + 1 + unat (packet ! pos))
           (if counting_wire then wire_len + (1 + unat (packet ! pos)) else wire_len)
           counting_wire ptr_count
           (memcpy (out(out_pos := packet ! pos)) (out_pos + 1)
              (take (unat (packet ! pos)) (drop (pos + 1) packet))))"
  by (subst decompress_loop.simps) (simp add: Let_def DNS_MAX_NAME_LEN_def)

lemma decompress_loop_cases [consumes 0, case_names stop pointer terminator label]:
  assumes "length packet \<le> pos \<Longrightarrow> P"
    and "pos < length packet \<Longrightarrow> packet ! pos AND 0xC0 = 0xC0 \<Longrightarrow> P"
    and "pos < length packet \<Longrightarrow> packet ! pos = 0 \<Longrightarrow> P"
    and "pos < length packet \<Longrightarrow> packet ! pos AND 0xC0 \<noteq> 0xC0 \<Longrightarrow> packet ! pos \<noteq> 0 \<Longrightarrow> P"
  shows P
  using assms by (cases "pos < length packet"; cases "packet ! pos AND 0xC0 = 0xC0"; cases "packet ! pos = 0") auto

lemma decompress_loop_frame:
  "decompress_loop packet pos out_pos wire_len counting_wire ptr_count out = (e, out', op', wl')
   \<Longrightarrow> out_pos \<le> 255
   \<Longrightarrow> out_pos \<le> op' \<and> op' \<le> 256 \<and> (e \<noteq> DNSASM_OK \<longrightarrow> op' \<le> 255)
       \<and> (\<forall>i. i < out_pos \<or> op' \<le> i \<longrightarrow> out' i = out i)"
proof (induction packet pos out_pos wire_len counting_wire ptr_count out
       rule: decompress_loop.induct)
  case (1 packet pos out_pos wire_len counting_wire ptr_count out)
  note IH1 = "1.IH"(1)[OF _ refl _ _ refl refl refl, unfolded ptr_value]
  note IH2 = "1.IH"(2)[OF _ refl]
  show ?case
  proof (cases rule: decompress_loop_cases[of packet pos])
    case stop
    with "1.prems" show ?thesis by (simp add: loop_stop)
  next
    case pointer
    show ?thesis
    proof (cases "length packet \<le> pos + 1 \<or> 127 \<le> ptr_count
                  \<or> pos \<le> pointer_target (packet ! pos) (packet ! (pos + 1))")
      case True
      with "1.prems" pointer show ?thesis
        by (auto simp: loop_pointer split: if_splits)
    next
      case False
      with "1.prems" pointer have
        "decompress_loop packet (pointer_target (packet ! pos) (packet ! (pos + 1))) out_pos
           (if counting_wire then wire_len + 2 else wire_len) False (ptr_count + 1) out
         = (e, out', op', wl')"
        by (simp add: loop_pointer)
      from IH1[OF pointer _ _ _ this "1.prems"(2)] False show ?thesis
        by simp
    qed
  next
    case terminator
    with "1.prems" show ?thesis by (auto simp: loop_terminator)
  next
    case label
    let ?l = "unat (packet ! pos)"
    show ?thesis
    proof (cases "63 < ?l \<or> length packet < pos + 1 + ?l \<or> 255 < out_pos + 1 + ?l")
      case True
      with "1.prems" label show ?thesis
        by (auto simp: loop_label split: if_splits)
    next
      case False
      with "1.prems" label have run:
        "decompress_loop packet (pos + 1 + ?l) (out_pos + 1 + ?l)
           (if counting_wire then wire_len + (1 + ?l) else wire_len) counting_wire ptr_count
           (memcpy (out(out_pos := packet ! pos)) (out_pos + 1)
              (take ?l (drop (pos + 1) packet))) = (e, out', op', wl')"
        by (simp add: loop_label)
      have "out_pos + 1 + ?l \<le> 255" using False by simp
      from IH2[OF label(1,2) _ _ _ _ run this] label False
      have r: "out_pos + 1 + ?l \<le> op' \<and> op' \<le> 256 \<and> (e \<noteq> DNSASM_OK \<longrightarrow> op' \<le> 255) \<and>
         (\<forall>i. i < out_pos + 1 + ?l \<or> op' \<le> i \<longrightarrow>
              out' i = memcpy (out(out_pos := packet ! pos)) (out_pos + 1)
                (take ?l (drop (pos + 1) packet)) i)"
        by (simp add: DNS_MAX_NAME_LEN_def)
      then show ?thesis
        by (auto simp: memcpy_def)
    qed
  qed
qed

section \<open>Labels, pointer chains and what the loop does with them\<close>

lemma memcpy_Nil [simp]: "memcpy out d [] = out"
  by (rule ext) (auto simp: memcpy_def)

lemma memcpy_Cons: "memcpy (out(d := x)) (Suc d) xs = memcpy out d (x # xs)"
  by (rule ext) (auto simp: memcpy_def nth_Cons')

lemma memcpy_append:
  "memcpy (memcpy out d xs) (d + length xs) ys = memcpy out d (xs @ ys)"
  by (rule ext) (auto simp: memcpy_def nth_append)

lemma bytes_at_append:
  "bytes_at packet pos (xs @ ys) \<longleftrightarrow>
   bytes_at packet pos xs \<and> bytes_at packet (pos + length xs) ys"
proof -
  have "take (length xs + length ys) (drop pos packet)
        = take (length xs) (drop pos packet) @ take (length ys) (drop (pos + length xs) packet)"
    by (simp add: take_add add.commute)
  then show ?thesis
    by (auto simp: bytes_at_def)
qed

lemma bytes_at_Cons:
  "bytes_at packet pos (x # xs) \<longleftrightarrow>
   pos < length packet \<and> packet ! pos = x \<and> bytes_at packet (pos + 1) xs"
  using bytes_at_append[of packet pos "[x]" xs]
  by (auto simp: bytes_at_def take_Suc_conv_app_nth hd_drop_conv_nth take_Suc)

lemma label_byte:
  assumes "valid_label l"
  shows "unat (of_nat (length l) :: u8) = length l"
    and "(of_nat (length l) :: u8) \<noteq> 0"
    and "(of_nat (length l) :: u8) AND 0xC0 \<noteq> 0xC0"
proof -
  from assms have len: "1 \<le> length l" "length l \<le> 63"
    by (simp_all add: valid_label_def)
  then show u: "unat (of_nat (length l) :: u8) = length l"
    by (simp add: unat_of_nat)
  from u len show "(of_nat (length l) :: u8) \<noteq> 0"
    by (metis not_one_le_zero unat_0)
  show "(of_nat (length l) :: u8) AND 0xC0 \<noteq> 0xC0"
  proof
    assume a: "(of_nat (length l) :: u8) AND 0xC0 = 0xC0"
    have "(of_nat (length l) :: u8) AND 0xC0 \<le> of_nat (length l)"
      by (rule word_and_le2)
    with a have "(0xC0 :: u8) \<le> of_nat (length l)" by simp
    then have "unat (0xC0 :: u8) \<le> unat (of_nat (length l) :: u8)"
      by (simp add: word_le_nat_alt)
    with u len show False by simp
  qed
qed

lemma loop_one_label:
  assumes "valid_label l" and "bytes_at packet pos (encode_label l)"
    and "out_pos + length (encode_label l) \<le> 255"
  shows "decompress_loop packet pos out_pos wire_len counting_wire ptr_count out =
         decompress_loop packet (pos + length (encode_label l))
           (out_pos + length (encode_label l))
           (if counting_wire then wire_len + length (encode_label l) else wire_len)
           counting_wire ptr_count (memcpy out out_pos (encode_label l))"
proof -
  from assms(2) have p: "pos < length packet" "packet ! pos = of_nat (length l)"
    and b: "bytes_at packet (pos + 1) l"
    by (simp_all add: encode_label_def bytes_at_Cons)
  from b have t: "take (length l) (drop (pos + 1) packet) = l" "pos + 1 + length l \<le> length packet"
    by (simp_all add: bytes_at_def)
  note lb = label_byte[OF assms(1)]
  show ?thesis
    using assms(1,3) p t lb
    by (subst loop_label) (simp_all add: encode_label_def memcpy_Cons valid_label_def)
qed

lemma loop_labels:
  "list_all valid_label ls \<Longrightarrow> bytes_at packet pos (encode_labels ls) \<Longrightarrow>
   out_pos + length (encode_labels ls) \<le> 255 \<Longrightarrow>
   decompress_loop packet pos out_pos wire_len counting_wire ptr_count out =
   decompress_loop packet (pos + length (encode_labels ls))
     (out_pos + length (encode_labels ls))
     (if counting_wire then wire_len + length (encode_labels ls) else wire_len)
     counting_wire ptr_count (memcpy out out_pos (encode_labels ls))"
proof (induction ls arbitrary: pos out_pos wire_len out)
  case Nil
  then show ?case by (simp add: encode_labels_def)
next
  case (Cons l ls)
  have e: "encode_labels (l # ls) = encode_label l @ encode_labels ls"
    by (simp add: encode_labels_def)
  from Cons.prems have v: "valid_label l" "list_all valid_label ls"
    and b: "bytes_at packet pos (encode_label l)"
           "bytes_at packet (pos + length (encode_label l)) (encode_labels ls)"
    and r: "out_pos + length (encode_label l) \<le> 255"
           "out_pos + length (encode_label l) + length (encode_labels ls) \<le> 255"
    by (simp_all add: e bytes_at_append)
  show ?case
    apply (subst loop_one_label[OF v(1) b(1) r(1)])
    apply (subst Cons.IH[OF v(2) b(2) r(2)])
    apply (simp add: e memcpy_append add.assoc)
    done
qed

lemma encode_labels_append [simp]:
  "encode_labels (xs @ ys) = encode_labels xs @ encode_labels ys"
  by (simp add: encode_labels_def)

lemma loop_chain:
  "chain_at packet pos ls hops \<Longrightarrow> ptr_count + length hops \<le> 127 \<Longrightarrow>
   out_pos + length (encode_labels (chain_labels ls hops)) \<le> 255 \<Longrightarrow>
   decompress_loop packet pos out_pos wire_len counting_wire ptr_count out =
   decompress_loop packet (chain_end pos ls hops)
     (out_pos + length (encode_labels (chain_labels ls hops)))
     (if counting_wire then wire_len + chain_wire ls hops else wire_len)
     (counting_wire \<and> hops = []) (ptr_count + length hops)
     (memcpy out out_pos (encode_labels (chain_labels ls hops)))"
proof (induction hops arbitrary: pos ls out_pos wire_len counting_wire ptr_count out)
  case Nil
  then show ?case
    using loop_labels[of ls packet pos out_pos wire_len counting_wire ptr_count out]
    by (simp add: chain_labels_def chain_wire_def)
next
  case (Cons h hops)
  obtain t ms where h: "h = (t, ms)" by (cases h)
  let ?n = "length (encode_labels ls)"
  let ?q = "pos + ?n"
  from Cons.prems(1) have v: "list_all valid_label ls" "bytes_at packet pos (encode_labels ls)"
    and p: "pointer_at packet ?q t" and bwd: "t < ?q" and rest: "chain_at packet t ms hops"
    by (simp_all add: h)
  have lab: "chain_labels ls ((t, ms) # hops) = ls @ chain_labels ms hops"
    by (simp add: chain_labels_def)
  from Cons.prems(3) have room: "out_pos + ?n \<le> 255"
    "(out_pos + ?n) + length (encode_labels (chain_labels ms hops)) \<le> 255"
    by (simp_all add: h lab)
  from Cons.prems(2) have pc: "ptr_count < 127" "(ptr_count + 1) + length hops \<le> 127"
    by simp_all
  from p have pq: "?q < length packet" "packet ! ?q AND 0xC0 = 0xC0"
    "\<not> length packet \<le> ?q + 1" "pointer_target (packet ! ?q) (packet ! (?q + 1)) = t"
    by (simp_all add: pointer_at_def)
  have "decompress_loop packet pos out_pos wire_len counting_wire ptr_count out =
        decompress_loop packet ?q (out_pos + ?n)
          (if counting_wire then wire_len + ?n else wire_len) counting_wire ptr_count
          (memcpy out out_pos (encode_labels ls))"
    by (rule loop_labels[OF v room(1)])
  also have "\<dots> = decompress_loop packet t (out_pos + ?n)
          (if counting_wire then wire_len + ?n + 2 else wire_len) False (ptr_count + 1)
          (memcpy out out_pos (encode_labels ls))"
    using pq pc(1) bwd by (subst loop_pointer) simp_all
  also have "\<dots> = decompress_loop packet (chain_end t ms hops)
          ((out_pos + ?n) + length (encode_labels (chain_labels ms hops)))
          (if counting_wire then wire_len + ?n + 2 else wire_len)
          False ((ptr_count + 1) + length hops)
          (memcpy (memcpy out out_pos (encode_labels ls)) (out_pos + ?n)
             (encode_labels (chain_labels ms hops)))"
    using Cons.IH[OF rest pc(2) room(2), of "if counting_wire then wire_len + ?n + 2 else wire_len" False
                  "memcpy out out_pos (encode_labels ls)"]
    by simp
  finally show ?case
    by (simp add: h lab memcpy_append chain_wire_def add.assoc)
qed

lemma memcpy_snoc: "(memcpy out d xs)(d + length xs := x) = memcpy out d (xs @ [x])"
  by (rule ext) (auto simp: memcpy_def nth_append)

lemma loop_chain_terminated:
  assumes "chain_at packet pos ls hops" and "length hops \<le> 127"
    and "terminator_at packet (chain_end pos ls hops)"
    and "length (encode_labels (chain_labels ls hops)) \<le> 255"
  shows "decompress_loop packet pos 0 0 True 0 out =
         (DNSASM_OK, memcpy out 0 (encode_labels (chain_labels ls hops) @ [0]),
          length (encode_labels (chain_labels ls hops)) + 1,
          length (encode_labels ls) + (if hops = [] then 1 else 2))"
  using assms(3)
  by (subst loop_chain[OF assms(1)])
     (use assms(2,4) in \<open>auto simp: terminator_at_def loop_terminator chain_wire_def
        memcpy_snoc[of out 0, simplified]\<close>)




subsection \<open>The pointer ladder\<close>







lemma encode_labels_Nil [simp]: "encode_labels [] = []"
  by (simp add: encode_labels_def)




lemma ladder_hops_length [simp]: "length (ladder_hops n) = n"
  by (simp add: ladder_hops_def)

section \<open>Names with one compression pointer\<close>

lemma unat_of_nat_u32: "n < 2 ^ 32 \<Longrightarrow> unat (of_nat n :: u32) = n"
  by (simp add: unat_of_nat)

lemma unat_of_nat_u16: "n < 2 ^ 16 \<Longrightarrow> unat (of_nat n :: u16) = n"
  by (simp add: unat_of_nat)

text \<open>
  C4. Let a packet hold, from \<open>offset\<close>, zero or more valid labels \<open>ls\<close> followed by one
  compression pointer to an earlier position \<open>t\<close>, where a valid name without pointers
  stands (labels \<open>ms\<close>, then the zero byte), and let the whole name respect the limit of
  255 bytes. Then \<^verbatim>\<open>dnsasm_decompress_name\<close> succeeds, writes the labels \<open>ls\<close>, the
  labels \<open>ms\<close> and the zero byte to \<open>out\<close> and nothing else, returns their number of
  bytes in \<^verbatim>\<open>*out_len\<close>, and reports as consumed only the bytes from \<open>offset\<close> up to and
  including the two bytes of the pointer: nothing at or after the target is counted.
\<close>

theorem single_pointer_name:
  assumes "list_all valid_label ls"
    and "bytes_at packet offset (encode_labels ls)"
    and "pointer_at packet (offset + length (encode_labels ls)) t"
    and "t < offset + length (encode_labels ls)"
    and "plain_name_at packet t ms"
    and "length (encode_labels (ls @ ms)) + 1 \<le> 255"
  shows "dnsasm_decompress_name packet offset out out_len =
           (\<lparr>result_error = DNSASM_OK,
              result_offset = of_nat (length (encode_labels ls) + 2)\<rparr>,
            memcpy out 0 (encode_labels (ls @ ms) @ [0]),
            of_nat (length (encode_labels (ls @ ms)) + 1))
         \<and> unat (of_nat (length (encode_labels ls) + 2) :: u32) = length (encode_labels ls) + 2
         \<and> unat (of_nat (length (encode_labels (ls @ ms)) + 1) :: u16)
             = length (encode_labels (ls @ ms)) + 1"
proof -
  from assms(5) have ms: "list_all valid_label ms" "bytes_at packet t (encode_labels ms)"
    "terminator_at packet (t + length (encode_labels ms))"
    by (simp_all add: plain_name_at_def)
  have c: "chain_at packet offset ls [(t, ms)]"
    using assms(1-4) ms by simp
  have e: "chain_end offset ls [(t, ms)] = t + length (encode_labels ms)"
    by simp
  have l: "chain_labels ls [(t, ms)] = ls @ ms"
    by (simp add: chain_labels_def)
  from assms(6) have r: "length (encode_labels (chain_labels ls [(t, ms)])) \<le> 255"
    by (simp add: l)
  have "decompress_loop packet offset 0 0 True 0 out =
        (DNSASM_OK, memcpy out 0 (encode_labels (ls @ ms) @ [0]),
         length (encode_labels (ls @ ms)) + 1, length (encode_labels ls) + 2)"
    using loop_chain_terminated[OF c _ _ r, of out] ms(3)
    by (simp add: l)
  then have "dnsasm_decompress_name packet offset out out_len =
           (\<lparr>result_error = DNSASM_OK,
              result_offset = of_nat (length (encode_labels ls) + 2)\<rparr>,
            memcpy out 0 (encode_labels (ls @ ms) @ [0]),
            of_nat (length (encode_labels (ls @ ms)) + 1))"
    by (simp add: dnsasm_decompress_name_def)
  moreover from assms(6)
  have "unat (of_nat (length (encode_labels ls) + 2) :: u32) = length (encode_labels ls) + 2"
    by (intro unat_of_nat_u32) simp
  moreover from assms(6)
  have "unat (of_nat (length (encode_labels (ls @ ms)) + 1) :: u16)
          = length (encode_labels (ls @ ms)) + 1"
    by (intro unat_of_nat_u16) simp
  ultimately show ?thesis
    by (intro conjI)
qed

lemma sample_response_hyps:
  "bytes_at sample_response 33 (encode_labels [])"
  "pointer_at sample_response (33 + length (encode_labels [])) 12"
  "plain_name_at sample_response 12 www_example_com"
  "length (encode_labels ([] @ www_example_com)) + 1 \<le> 255"
  by (simp_all add: sample_response_def www_example_com_def bytes_at_def pointer_at_def
        plain_name_at_def terminator_at_def encode_labels_def encode_label_def valid_label_def
        pointer_target_def)

text \<open>
  The answer record of the sample response: its name is a pointer to offset 12, where
  \<^verbatim>\<open>www.example.com\<close> stands.
\<close>

theorem single_pointer_name_witness:
  "dnsasm_decompress_name sample_response 33 zero_buffer 0 =
     (\<lparr>result_error = DNSASM_OK, result_offset = 2\<rparr>,
      memcpy zero_buffer 0
        [3, 0x77, 0x77, 0x77, 7, 0x65, 0x78, 0x61, 0x6d, 0x70, 0x6c, 0x65, 3, 0x63, 0x6f, 0x6d, 0],
      17)"
  using single_pointer_name[of "[]" sample_response 33 12 www_example_com zero_buffer 0]
    sample_response_hyps
  by (simp add: www_example_com_def encode_labels_def encode_label_def)

section \<open>The hop limit and invalid pointers\<close>

lemma decompress_name_error:
  "result_error (fst (dnsasm_decompress_name packet offset out out_len)) =
   fst (decompress_loop packet offset 0 0 True 0 out)"
  by (cases "decompress_loop packet offset 0 0 True 0 out")
     (simp add: dnsasm_decompress_name_def)












section \<open>Bounds on the output\<close>

lemma long_name_result:
  "result_error (fst (dnsasm_decompress_name long_name 0 zero_buffer 0)) = DNSASM_OK"
  "snd (snd (dnsasm_decompress_name long_name 0 zero_buffer 0)) = 256"
  by code_simp+

text \<open>
  C3 says that a decompressed name, terminating zero byte included, never exceeds 255
  bytes. The check before a label is copied keeps \<open>out_pos\<close> at or below 255, and the zero
  byte is appended without a check: on \<open>long_name\<close>, 256 bytes on the wire, the function
  succeeds and returns 256 in \<^verbatim>\<open>*out_len\<close>.
\<close>

theorem decompress_name_256_bytes:
  "length long_name = 256 \<and>
   result_error (fst (dnsasm_decompress_name long_name 0 zero_buffer 0)) = DNSASM_OK \<and>
   unat (snd (snd (dnsasm_decompress_name long_name 0 zero_buffer 0))) = 256"
  by (simp add: long_name_result) (simp add: long_name_def)

text \<open>
  Labels that run up to the end of the buffer, with no terminator after them, are
  accepted.
\<close>

lemma unterminated_labels_accepted:
  assumes "list_all valid_label ls" and "bytes_at packet offset (encode_labels ls)"
    and "offset + length (encode_labels ls) = length packet"
    and "length (encode_labels ls) \<le> 255"
  shows "result_error (fst (dnsasm_decompress_name packet offset out out_len)) = DNSASM_OK"
proof -
  have "chain_at packet offset ls []"
    using assms(1,2) by simp
  from loop_chain[OF this, of 0 0 0 True out] assms(3,4) show ?thesis
    by (simp add: decompress_name_error chain_labels_def loop_stop)
qed

text \<open>
  C2 says that a name cut off by the end of the buffer fails with \<open>DNSASM_ERR_SHORT\<close>.
  When \<open>pos\<close> reaches \<open>len\<close> the loop condition turns false and the code after the loop
  returns \<open>DNSASM_OK\<close>: on the empty packet, and on a packet that ends after the label
  \<^verbatim>\<open>www\<close> with no terminator, the function succeeds.
\<close>

theorem truncated_name_accepted:
  "dnsasm_decompress_name [] 0 zero_buffer 7 =
     (\<lparr>result_error = DNSASM_OK, result_offset = 0\<rparr>, zero_buffer, 0) \<and>
   dnsasm_decompress_name [3, 0x77, 0x77, 0x77] 0 zero_buffer 7 =
     (\<lparr>result_error = DNSASM_OK, result_offset = 4\<rparr>,
      memcpy zero_buffer 0 [3, 0x77, 0x77, 0x77], 4)"
proof
  show "dnsasm_decompress_name [] 0 zero_buffer 7 =
     (\<lparr>result_error = DNSASM_OK, result_offset = 0\<rparr>, zero_buffer, 0)"
    by (simp add: dnsasm_decompress_name_def loop_stop)
  have "chain_at [3, 0x77, 0x77, 0x77] 0 [[0x77, 0x77, 0x77]] []"
    by (simp add: bytes_at_def encode_labels_def encode_label_def valid_label_def)
  from loop_chain[OF this, of 0 0 0 True zero_buffer]
  have "decompress_loop [3, 0x77, 0x77, 0x77] 0 0 0 True 0 zero_buffer =
        (DNSASM_OK, memcpy zero_buffer 0 [3, 0x77, 0x77, 0x77], 4, 4)"
    by (simp add: chain_labels_def chain_wire_def encode_labels_def encode_label_def loop_stop)
  then show "dnsasm_decompress_name [3, 0x77, 0x77, 0x77] 0 zero_buffer 7 =
     (\<lparr>result_error = DNSASM_OK, result_offset = 4\<rparr>,
      memcpy zero_buffer 0 [3, 0x77, 0x77, 0x77], 4)"
    by (simp add: dnsasm_decompress_name_def)
qed

text \<open>
  C10. For every input \<^verbatim>\<open>dnsasm_decompress_name\<close> leaves every byte of \<open>out\<close> at an index
  of 256 or more as it was, so it writes only inside the \<open>DNS_MAX_NAME_LEN + 1\<close> bytes the
  caller supplies; and when it succeeds the length it returns is at most 256.
\<close>

theorem decompress_name_output_bounds:
  "(256 \<le> i \<longrightarrow> fst (snd (dnsasm_decompress_name packet offset out out_len)) i = out i) \<and>
   (result_error (fst (dnsasm_decompress_name packet offset out out_len)) = DNSASM_OK \<longrightarrow>
      unat (snd (snd (dnsasm_decompress_name packet offset out out_len))) \<le> 256)"
proof -
  obtain e out' op' wl' where r: "decompress_loop packet offset 0 0 True 0 out = (e, out', op', wl')"
    by (cases "decompress_loop packet offset 0 0 True 0 out")
  from decompress_loop_frame[OF r] have f: "op' \<le> 256" "\<forall>i. op' \<le> i \<longrightarrow> out' i = out i"
    by simp_all
  have "unat (of_nat op' :: u16) = op'"
    using f(1) by (intro unat_of_nat_u16) simp
  with f show ?thesis
    by (simp add: dnsasm_decompress_name_def r)
qed

theorem decompress_name_output_bounds_witness:
  "fst (snd (dnsasm_decompress_name long_name 0 zero_buffer 0)) 256 = zero_buffer 256 \<and>
   unat (snd (snd (dnsasm_decompress_name long_name 0 zero_buffer 0))) \<le> 256"
  using decompress_name_output_bounds[of 256 long_name 0 zero_buffer 0] long_name_result(1)
  by simp

section \<open>Comparing names\<close>

lemma name_equal_loop_values: "name_equal_loop a b i = 0 \<or> name_equal_loop a b i = 1"
proof (induction a b i rule: name_equal_loop.induct)
  case (1 a b i)
  then show ?case
    by (subst (1 2) name_equal_loop.simps) (auto simp: Let_def)
qed

lemma name_equal_loop_zero:
  "name_equal_loop a b i = 0 \<longleftrightarrow>
   (\<forall>j. i \<le> j \<and> j < length a \<longrightarrow> ascii_lower (a ! j) = ascii_lower (b ! j))"
proof (induction a b i rule: name_equal_loop.induct)
  case (1 a b i)
  show ?case
  proof (cases "i < length a")
    case False
    then show ?thesis by (subst name_equal_loop.simps) auto
  next
    case True
    show ?thesis
    proof (cases "ascii_lower (a ! i) = ascii_lower (b ! i)")
      case False
      with True have "name_equal_loop a b i = 1"
        by (subst name_equal_loop.simps) (simp add: Let_def ascii_lower_def)
      with True False show ?thesis by auto
    next
      case eq: True
      with True have "name_equal_loop a b i = name_equal_loop a b (i + 1)"
        by (subst name_equal_loop.simps) (simp add: Let_def ascii_lower_def)
      also have "\<dots> = 0 \<longleftrightarrow>
        (\<forall>j. i + 1 \<le> j \<and> j < length a \<longrightarrow> ascii_lower (a ! j) = ascii_lower (b ! j))"
        using "1.IH"[OF True refl refl refl refl] eq by (simp add: ascii_lower_def)
      also have "\<dots> \<longleftrightarrow> (\<forall>j. i \<le> j \<and> j < length a \<longrightarrow> ascii_lower (a ! j) = ascii_lower (b ! j))"
      proof (intro iffI allI impI)
        fix j
        assume r: "\<forall>j. i + 1 \<le> j \<and> j < length a \<longrightarrow> ascii_lower (a ! j) = ascii_lower (b ! j)"
          and j: "i \<le> j \<and> j < length a"
        show "ascii_lower (a ! j) = ascii_lower (b ! j)"
        proof (cases "j = i")
          case True
          with eq show ?thesis by simp
        next
          case False
          with j have "i + 1 \<le> j \<and> j < length a" by simp
          with r show ?thesis by blast
        qed
      next
        fix j
        assume "\<forall>j. i \<le> j \<and> j < length a \<longrightarrow> ascii_lower (a ! j) = ascii_lower (b ! j)"
          and "i + 1 \<le> j \<and> j < length a"
        then show "ascii_lower (a ! j) = ascii_lower (b ! j)" by simp
      qed
      finally show ?thesis .
    qed
  qed
qed

lemma ascii_lower_not_letter:
  assumes "\<not> ascii_letter c" and "c \<noteq> d"
  shows "ascii_lower c \<noteq> ascii_lower d"
proof -
  from assms(1) have c: "ascii_lower c = c"
    by (auto simp: ascii_lower_def ascii_letter_def)
  show ?thesis
  proof (cases "0x41 \<le> d \<and> d \<le> 0x5A")
    case False
    with c assms(2) show ?thesis by (auto simp: ascii_lower_def)
  next
    case True
    then have "unat d + 32 < 256" "65 \<le> unat d" "unat d \<le> 90"
      by (simp_all add: word_le_nat_alt)
    then have "unat (d + 32) = unat d + 32"
      by (simp add: unat_word_ariths)
    with \<open>65 \<le> unat d\<close> \<open>unat d \<le> 90\<close> have "0x61 \<le> d + 32 \<and> d + 32 \<le> 0x7A"
      by (simp add: word_le_nat_alt)
    then have "ascii_letter (ascii_lower d)"
      using True by (simp add: ascii_lower_def ascii_letter_def)
    with assms(1) c show ?thesis by auto
  qed
qed

text \<open>
  C8. \<^verbatim>\<open>dnsasm_name_equal\<close> returns 1 (not equal) whenever the lengths differ. For equal
  lengths it returns 0 (equal) exactly when the two sequences agree at every position
  after each byte in \<^verbatim>\<open>'A'\<close>..\<^verbatim>\<open>'Z'\<close> is mapped to its lowercase form, and 1 otherwise;
  every other byte, a label-length byte included, is compared as it is, so two
  sequences that differ at a position where the first holds no letter are not equal.
  \<^verbatim>\<open>WWW\<close> and \<^verbatim>\<open>www\<close> compare equal.
\<close>

theorem name_equal_case_insensitive:
  "(length a \<noteq> length b \<longrightarrow> dnsasm_name_equal a b = 1) \<and>
   (length a = length b \<longrightarrow>
      (dnsasm_name_equal a b = 0 \<longleftrightarrow>
         (\<forall>i < length a. ascii_lower (a ! i) = ascii_lower (b ! i))) \<and>
      (dnsasm_name_equal a b \<noteq> 0 \<longrightarrow> dnsasm_name_equal a b = 1)) \<and>
   (length a = length b \<and> i < length a \<and> a ! i \<noteq> b ! i \<and> \<not> ascii_letter (a ! i) \<longrightarrow>
      dnsasm_name_equal a b = 1) \<and>
   dnsasm_name_equal [3, 0x57, 0x57, 0x57] [3, 0x77, 0x77, 0x77] = 0"
proof (intro conjI impI)
  show "dnsasm_name_equal [3, 0x57, 0x57, 0x57] [3, 0x77, 0x77, 0x77] = 0"
    by (simp add: dnsasm_name_equal_def name_equal_loop.simps)
next
  assume "length a \<noteq> length b"
  then show "dnsasm_name_equal a b = 1" by (simp add: dnsasm_name_equal_def)
next
  assume "length a = length b"
  then show "dnsasm_name_equal a b = 0 \<longleftrightarrow>
         (\<forall>i < length a. ascii_lower (a ! i) = ascii_lower (b ! i))"
    by (simp add: dnsasm_name_equal_def name_equal_loop_zero)
next
  assume "length a = length b" "dnsasm_name_equal a b \<noteq> 0"
  then show "dnsasm_name_equal a b = 1"
    using name_equal_loop_values[of a b 0] by (simp add: dnsasm_name_equal_def)
next
  assume h: "length a = length b \<and> i < length a \<and> a ! i \<noteq> b ! i \<and> \<not> ascii_letter (a ! i)"
  then have "ascii_lower (a ! i) \<noteq> ascii_lower (b ! i)"
    by (simp add: ascii_lower_not_letter)
  with h have "name_equal_loop a b 0 \<noteq> 0"
    by (auto simp: name_equal_loop_zero)
  with h show "dnsasm_name_equal a b = 1"
    using name_equal_loop_values[of a b 0] by (simp add: dnsasm_name_equal_def)
qed

text \<open>Different lengths; equal up to case; a different label-length byte.\<close>

theorem name_equal_case_insensitive_witness:
  "dnsasm_name_equal [3, 0x57, 0x57, 0x57] [3, 0x77, 0x77] = 1 \<and>
   dnsasm_name_equal [3, 0x57, 0x57, 0x57] [3, 0x77, 0x77, 0x77] = 0 \<and>
   dnsasm_name_equal [3, 0x57, 0x57, 0x57] [4, 0x77, 0x77, 0x77] = 1"
  using name_equal_case_insensitive[of "[3, 0x57, 0x57, 0x57]" "[3, 0x77, 0x77]" 0]
    name_equal_case_insensitive[of "[3, 0x57, 0x57, 0x57]" "[4, 0x77, 0x77, 0x77]" 0]
  by (simp add: ascii_letter_def)

section \<open>The header, built and parsed again\<close>

lemma bswap16_low: "(ucast (bswap16 x) :: u8) = ucast (drop_bit 8 x)"
  by (rule bit_word_eqI) (auto simp: bit_simps bswap16_def)

lemma bswap16_high: "(ucast (drop_bit 8 (bswap16 x)) :: u8) = ucast x"
  by (rule bit_word_eqI) (auto simp: bit_simps bswap16_def)

lemma store16_bswap16: "store16 out pos (bswap16 x) = memcpy out pos (be16 x)"
  by (rule ext) (auto simp: store16_def memcpy_def be16_def bswap16_low bswap16_high nth_Cons')

lemma load16_be16:
  "bytes_at packet pos (be16 x) \<Longrightarrow> bswap16 (load16 packet pos) = x"
proof -
  assume "bytes_at packet pos (be16 x)"
  then have b: "packet ! pos = ucast (drop_bit 8 x)" "packet ! (pos + 1) = ucast x"
    by (simp_all add: be16_def bytes_at_Cons)
  show ?thesis
    unfolding load16_def b bswap16_def
    by (rule bit_word_eqI) (auto simp: bit_simps)
qed

lemma flag_bit:
  "n < 16 \<Longrightarrow> (ucast (drop_bit n (w :: u16) AND 1) :: u8) = of_bool (bit w n)"
  by (rule bit_word_eqI) (auto simp: bit_simps)

lemma m15: "(0x0F :: u16) = mask 4"
  by (simp add: mask_eq_exp_minus_1)

lemma flag_nibble:
  "unat (ucast (drop_bit n (w :: u16) AND 0x0F) :: u8) = unat w div 2 ^ n mod 16"
proof -
  have "unat (ucast (drop_bit n w AND 0x0F) :: u8) = take_bit 4 (drop_bit n (unat w))"
    unfolding m15
    by (rule bit_eqI) (auto simp: bit_simps)
  then show ?thesis
    by (simp add: take_bit_eq_mod drop_bit_eq_div)
qed

lemma flag_nibble_word:
  "(ucast (drop_bit n (w :: u16) AND 0x0F) :: u8) = of_nat (unat w div 2 ^ n mod 16)"
proof -
  have "(ucast (drop_bit n w AND 0x0F) :: u8) = of_nat (unat (ucast (drop_bit n w AND 0x0F) :: u8))"
    by simp
  then show ?thesis
    by (simp only: flag_nibble)
qed

lemma memcpy_append_at:
  "d' = d + length xs \<Longrightarrow> memcpy (memcpy out d xs) d' ys = memcpy out d (xs @ ys)"
  by (simp add: memcpy_append)

lemma be16_length [simp]: "length (be16 x) = 2"
  by (simp add: be16_def)

lemma header_bytes_at:
  "bytes_at (header_bytes ident flgs qd an ns ar) 0 (be16 ident)"
  "bytes_at (header_bytes ident flgs qd an ns ar) 2 (be16 flgs)"
  "bytes_at (header_bytes ident flgs qd an ns ar) 4 (be16 qd)"
  "bytes_at (header_bytes ident flgs qd an ns ar) 6 (be16 an)"
  "bytes_at (header_bytes ident flgs qd an ns ar) 8 (be16 ns)"
  "bytes_at (header_bytes ident flgs qd an ns ar) 10 (be16 ar)"
  by (simp_all add: header_bytes_def bytes_at_def be16_def)

text \<open>
  C7. For all 16-bit values \<^verbatim>\<open>dnsasm_build_header\<close> returns 12 and writes exactly the
  twelve bytes of the six fields, big-endian and in the order id, flags, qdcount,
  ancount, nscount, arcount, to the start of \<open>out\<close>; \<^verbatim>\<open>dnsasm_parse_header\<close> on those
  twelve bytes succeeds, recovers the six values, and sets the sub-flags from the flags
  word: bit 15 is QR, bits 11 to 14 the opcode, bit 10 AA, bit 9 TC, bit 8 RD, bit 7 RA,
  bits 0 to 3 the RCODE.
\<close>

theorem header_roundtrip:
  "dnsasm_build_header out ident flgs qd an ns ar =
     (12, memcpy out 0 (header_bytes ident flgs qd an ns ar)) \<and>
   length (header_bytes ident flgs qd an ns ar) = 12 \<and>
   dnsasm_parse_header (header_bytes ident flgs qd an ns ar) h =
     (DNSASM_OK,
      h\<lparr>id_hdr := ident, flags := flgs, qdcount := qd, ancount := an, nscount := ns,
        arcount := ar,
        qr := of_bool (bit flgs 15),
        opcode := of_nat (unat flgs div 2 ^ 11 mod 16),
        aa := of_bool (bit flgs 10),
        tc := of_bool (bit flgs 9),
        rd := of_bool (bit flgs 8),
        ra := of_bool (bit flgs 7),
        rcode := of_nat (unat flgs mod 16)\<rparr>)"
proof (intro conjI)
  have "memcpy (memcpy (memcpy (memcpy (memcpy (memcpy out 0 (be16 ident)) 2 (be16 flgs)) 4
          (be16 qd)) 6 (be16 an)) 8 (be16 ns)) 10 (be16 ar)
        = memcpy out 0 (header_bytes ident flgs qd an ns ar)"
    by (simp add: header_bytes_def memcpy_append_at)
  then show "dnsasm_build_header out ident flgs qd an ns ar =
     (12, memcpy out 0 (header_bytes ident flgs qd an ns ar))"
    by (simp add: dnsasm_build_header_def DNS_HEADER_SIZE_def store16_bswap16)
next
  show "length (header_bytes ident flgs qd an ns ar) = 12"
    by (simp add: header_bytes_def)
next
  have rc: "(ucast (flgs AND 0x0F) :: u8) = of_nat (unat flgs mod 16)"
    using flag_nibble_word[of 0 flgs] by simp
  show "dnsasm_parse_header (header_bytes ident flgs qd an ns ar) h =
     (DNSASM_OK,
      h\<lparr>id_hdr := ident, flags := flgs, qdcount := qd, ancount := an, nscount := ns,
        arcount := ar,
        qr := of_bool (bit flgs 15),
        opcode := of_nat (unat flgs div 2 ^ 11 mod 16),
        aa := of_bool (bit flgs 10),
        tc := of_bool (bit flgs 9),
        rd := of_bool (bit flgs 8),
        ra := of_bool (bit flgs 7),
        rcode := of_nat (unat flgs mod 16)\<rparr>)"
    unfolding dnsasm_parse_header_def
    by (simp add: DNS_HEADER_SIZE_def header_bytes_at[THEN load16_be16] Let_def flag_bit
          flag_nibble_word rc)
      (simp add: header_bytes_def)
qed

lemma sample_header: "header_bytes 0x1234 0x0100 1 0 0 0 = take 12 sample_query"
  by (simp add: header_bytes_def be16_def sample_query_def)

section \<open>What a failed decode leaves behind\<close>

lemma decompress_name_on_error:
  assumes "result_error (fst (dnsasm_decompress_name packet offset out out_len)) \<noteq> DNSASM_OK"
  shows "snd (snd (dnsasm_decompress_name packet offset out out_len)) = out_len"
    and "result_offset (fst (dnsasm_decompress_name packet offset out out_len)) = 0"
    and "255 \<le> i \<Longrightarrow> fst (snd (dnsasm_decompress_name packet offset out out_len)) i = out i"
proof -
  obtain e out' op' wl' where r: "decompress_loop packet offset 0 0 True 0 out = (e, out', op', wl')"
    by (cases "decompress_loop packet offset 0 0 True 0 out")
  from assms have e: "e \<noteq> DNSASM_OK"
    by (simp add: decompress_name_error r)
  from decompress_loop_frame[OF r] e have f: "op' \<le> 255" "\<forall>i. op' \<le> i \<longrightarrow> out' i = out i"
    by simp_all
  from e show "snd (snd (dnsasm_decompress_name packet offset out out_len)) = out_len"
    and "result_offset (fst (dnsasm_decompress_name packet offset out out_len)) = 0"
    by (simp_all add: dnsasm_decompress_name_def r)
  assume "255 \<le> i"
  with f e show "fst (snd (dnsasm_decompress_name packet offset out out_len)) i = out i"
    by (simp add: dnsasm_decompress_name_def r)
qed

lemma parse_question_on_error:
  assumes "dnsasm_parse_question packet offset q = Some (res, q')"
    and "result_error res \<noteq> DNSASM_OK"
  shows "result_offset res = 0 \<and> qtype q' = qtype q \<and> qclass q' = qclass q \<and>
         q_wire_len q' = q_wire_len q"
proof -
  obtain r nm nl where d:
    "dnsasm_decompress_name packet offset (q_name q) (q_name_len q) = (r, nm, nl)"
    by (cases "dnsasm_decompress_name packet offset (q_name q) (q_name_len q)")
  show ?thesis
  proof (cases "result_error r = DNSASM_OK")
    case True
    with assms d show ?thesis
      by (auto simp: dnsasm_parse_question_def Let_def split: if_splits)
  next
    case False
    with decompress_name_on_error(2)[of packet offset "q_name q" "q_name_len q"] d
    have "result_offset r = 0" by simp
    with False assms d show ?thesis
      by (auto simp: dnsasm_parse_question_def Let_def split: if_splits)
  qed
qed

lemma parse_rr_on_error:
  assumes "dnsasm_parse_rr packet offset rr = Some (res, rr')"
    and "result_error res \<noteq> DNSASM_OK"
  shows "result_offset res = 0 \<and> rdata rr' = rdata rr \<and> rr_wire_len rr' = rr_wire_len rr"
proof -
  obtain r nm nl where d:
    "dnsasm_decompress_name packet offset (rr_name rr) (rr_name_len rr) = (r, nm, nl)"
    by (cases "dnsasm_decompress_name packet offset (rr_name rr) (rr_name_len rr)")
  show ?thesis
  proof (cases "result_error r = DNSASM_OK")
    case True
    with assms d show ?thesis
      by (auto simp: dnsasm_parse_rr_def Let_def split: if_splits)
  next
    case False
    with decompress_name_on_error(2)[of packet offset "rr_name rr" "rr_name_len rr"] d
    have "result_offset r = 0" by simp
    with False assms d show ?thesis
      by (auto simp: dnsasm_parse_rr_def Let_def split: if_splits)
  qed
qed

text \<open>
  C9, as the code has it. When a decode operation returns an error, \<^verbatim>\<open>result.offset\<close> is
  0 and the fields that are written last are as they were: \<^verbatim>\<open>*out_len\<close> for
  \<^verbatim>\<open>dnsasm_decompress_name\<close>, which also leaves \<open>out\<close> alone from index 255 on;
  \<open>qtype\<close>, \<open>qclass\<close> and \<open>wire_len\<close> for \<^verbatim>\<open>dnsasm_parse_question\<close>; \<open>rdata\<close> and
  \<open>wire_len\<close> for \<^verbatim>\<open>dnsasm_parse_rr\<close>. The name bytes, and for the later checks the name
  length and the fixed fields of a record, are written before the error is found and
  are not restored.
\<close>

theorem failed_decode_leaves:
  "(result_error (fst (dnsasm_decompress_name packet offset out out_len)) \<noteq> DNSASM_OK \<longrightarrow>
      result_offset (fst (dnsasm_decompress_name packet offset out out_len)) = 0 \<and>
      snd (snd (dnsasm_decompress_name packet offset out out_len)) = out_len \<and>
      (255 \<le> i \<longrightarrow> fst (snd (dnsasm_decompress_name packet offset out out_len)) i = out i))
   \<and>
   (dnsasm_parse_question packet offset q = Some (res, q') \<and> result_error res \<noteq> DNSASM_OK \<longrightarrow>
      result_offset res = 0 \<and> qtype q' = qtype q \<and> qclass q' = qclass q \<and>
      q_wire_len q' = q_wire_len q)
   \<and>
   (dnsasm_parse_rr packet offset rr = Some (res', rr') \<and> result_error res' \<noteq> DNSASM_OK \<longrightarrow>
      result_offset res' = 0 \<and> rdata rr' = rdata rr \<and> rr_wire_len rr' = rr_wire_len rr)"
  using decompress_name_on_error(1,2)[of packet offset out out_len]
    decompress_name_on_error(3)[of packet offset out out_len i]
    parse_question_on_error[of packet offset q res q']
    parse_rr_on_error[of packet offset rr res' rr']
  by blast

lemma broken_name:
  "dnsasm_decompress_name [1, 0x61, 0x40] 0 zero_buffer 0 =
     (\<lparr>result_error = DNSASM_ERR_NAME, result_offset = 0\<rparr>,
      memcpy zero_buffer 0 [1, 0x61], 0)"
proof -
  have "chain_at [1, 0x61, 0x40] 0 [[0x61]] []"
    by (simp add: bytes_at_def encode_labels_def encode_label_def valid_label_def)
  from loop_chain[OF this, of 0 0 0 True zero_buffer]
  have "decompress_loop [1, 0x61, 0x40] 0 0 0 True 0 zero_buffer =
        (DNSASM_ERR_NAME, memcpy zero_buffer 0 [1, 0x61], 2, 2)"
    by (simp add: chain_labels_def chain_wire_def encode_labels_def encode_label_def loop_label)
  then show ?thesis
    by (simp add: dnsasm_decompress_name_def)
qed

lemma root_name:
  "dnsasm_decompress_name (0 # bs) 0 out out_len =
     (\<lparr>result_error = DNSASM_OK, result_offset = 1\<rparr>, out(0 := 0), 1)"
  by (simp add: dnsasm_decompress_name_def loop_terminator)

lemma short_question:
  "dnsasm_parse_question [0, 0, 1] 0 (zero_question\<lparr>q_name_len := 7\<rparr>) =
     Some (\<lparr>result_error = DNSASM_ERR_SHORT, result_offset = 0\<rparr>,
           zero_question\<lparr>q_name := zero_buffer(0 := 0), q_name_len := 1\<rparr>)"
  by (simp add: dnsasm_parse_question_def root_name zero_question_def size_add_def)

lemma short_rr:
  "dnsasm_parse_rr [0, 0, 1, 0, 1, 0, 0, 1, 0x2c, 0, 4, 0x5d] 0 zero_rr =
     Some (\<lparr>result_error = DNSASM_ERR_SHORT, result_offset = 0\<rparr>,
           zero_rr\<lparr>rr_name := zero_buffer(0 := 0), rr_name_len := 1, rtype := 1, rclass := 1,
             ttl := 300, rdlength := 4\<rparr>)"
  by (simp add: dnsasm_parse_rr_def root_name zero_rr_def size_add_def in_packet_def
        load16_def load32_def bswap16_def bswap32_def)

text \<open>
  C9 as stated fails: a label is copied and the next length byte is 64; a question ends
  after its name; a record announces four bytes of RDATA and holds one. Each call returns
  an error and has changed the name bytes, the name length, or the TTL.
\<close>

theorem failed_decode_changes_output:
  "result_error (fst (dnsasm_decompress_name [1, 0x61, 0x40] 0 zero_buffer 0)) = DNSASM_ERR_NAME \<and>
   fst (snd (dnsasm_decompress_name [1, 0x61, 0x40] 0 zero_buffer 0)) 0 \<noteq> zero_buffer 0 \<and>
   result_error (fst (the (dnsasm_parse_question [0, 0, 1] 0 (zero_question\<lparr>q_name_len := 7\<rparr>))))
     = DNSASM_ERR_SHORT \<and>
   q_name_len (snd (the (dnsasm_parse_question [0, 0, 1] 0 (zero_question\<lparr>q_name_len := 7\<rparr>))))
     \<noteq> q_name_len (zero_question\<lparr>q_name_len := 7\<rparr>) \<and>
   result_error (fst (the (dnsasm_parse_rr [0, 0, 1, 0, 1, 0, 0, 1, 0x2c, 0, 4, 0x5d] 0 zero_rr)))
     = DNSASM_ERR_SHORT \<and>
   ttl (snd (the (dnsasm_parse_rr [0, 0, 1, 0, 1, 0, 0, 1, 0x2c, 0, 4, 0x5d] 0 zero_rr)))
     \<noteq> ttl zero_rr"
  by (simp add: broken_name short_question short_rr)
     (simp add: memcpy_def zero_buffer_def zero_rr_def)

text \<open>The same three failing calls.\<close>

theorem failed_decode_leaves_witness:
  "result_error (fst (dnsasm_decompress_name [1, 0x61, 0x40] 0 zero_buffer 0)) \<noteq> DNSASM_OK \<and>
   result_offset (fst (dnsasm_decompress_name [1, 0x61, 0x40] 0 zero_buffer 0)) = 0 \<and>
   snd (snd (dnsasm_decompress_name [1, 0x61, 0x40] 0 zero_buffer 0)) = 0 \<and>
   fst (snd (dnsasm_decompress_name [1, 0x61, 0x40] 0 zero_buffer 0)) 255 = zero_buffer 255 \<and>
   result_error (fst (the (dnsasm_parse_question [0, 0, 1] 0 (zero_question\<lparr>q_name_len := 7\<rparr>))))
     \<noteq> DNSASM_OK \<and>
   q_wire_len (snd (the (dnsasm_parse_question [0, 0, 1] 0 (zero_question\<lparr>q_name_len := 7\<rparr>))))
     = q_wire_len (zero_question\<lparr>q_name_len := 7\<rparr>) \<and>
   result_error (fst (the (dnsasm_parse_rr [0, 0, 1, 0, 1, 0, 0, 1, 0x2c, 0, 4, 0x5d] 0 zero_rr)))
     \<noteq> DNSASM_OK \<and>
   rdata (snd (the (dnsasm_parse_rr [0, 0, 1, 0, 1, 0, 0, 1, 0x2c, 0, 4, 0x5d] 0 zero_rr)))
     = rdata zero_rr"
  using failed_decode_leaves[where packet = "[1, 0x61, 0x40]" and offset = 0
      and out = zero_buffer and out_len = 0 and i = 255]
    failed_decode_leaves[where packet = "[0, 0, 1]" and offset = 0
      and q = "zero_question\<lparr>q_name_len := 7\<rparr>"] short_question
    failed_decode_leaves[where packet = "[0, 0, 1, 0, 1, 0, 0, 1, 0x2c, 0, 4, 0x5d]"
      and offset = 0 and rr = zero_rr] short_rr
  by (simp add: broken_name)

section \<open>Resource records\<close>

lemma bswap16_load16: "bswap16 (load16 packet pos) = be_word16 packet pos"
  unfolding bswap16_def load16_def be_word16_def
  by (rule bit_word_eqI) (auto simp: bit_simps dest: bit_imp_le_length)

lemma be_word16_value:
  "unat (be_word16 packet pos) = unat (packet ! pos) * 256 + unat (packet ! (pos + 1))"
proof -
  have "unat (be_word16 packet pos)
          = push_bit 8 (unat (packet ! pos)) OR unat (packet ! (pos + 1))"
    unfolding be_word16_def
    by (rule bit_eqI) (auto simp: bit_simps dest: bit_imp_le_length)
  also have "\<dots> = push_bit 8 (unat (packet ! pos)) + unat (packet ! (pos + 1))"
    by (rule disjunctive_add_eq_or [symmetric], rule bit_eqI)
       (auto simp: bit_simps dest: bit_imp_le_length)
  finally show ?thesis
    by (simp add: push_bit_eq_mult)
qed

lemma masks32:
  "(0xff :: u32) = mask 8" "(0xff00 :: u32) = push_bit 8 (mask 8)"
  "(0xff0000 :: u32) = push_bit 16 (mask 8)" "(0xff000000 :: u32) = push_bit 24 (mask 8)"
  by (simp_all add: mask_eq_exp_minus_1 push_bit_eq_mult)

lemma bswap32_parts:
  fixes a b c d :: u8
  defines "x \<equiv> (ucast a OR push_bit 8 (ucast b) OR push_bit 16 (ucast c) OR push_bit 24 (ucast d) :: u32)"
  shows "drop_bit 24 x AND mask 8 = ucast d"
    and "drop_bit 8 x AND push_bit 8 (mask 8) = push_bit 8 (ucast c)"
    and "push_bit 8 x AND push_bit 16 (mask 8) = push_bit 16 (ucast b)"
    and "push_bit 24 x AND push_bit 24 (mask 8) = push_bit 24 (ucast a)"
  unfolding x_def
     apply (rule bit_word_eqI; simp add: bit_simps; use bit_imp_le_length in fastforce)
    apply (rule bit_word_eqI; simp add: bit_simps; use bit_imp_le_length in fastforce)
   apply (rule bit_word_eqI; simp add: bit_simps; use bit_imp_le_length in fastforce)
  apply (rule bit_word_eqI; simp add: bit_simps; use bit_imp_le_length in fastforce)
  done

lemma bswap32_load32: "bswap32 (load32 packet pos) = be_word32 packet pos"
  unfolding bswap32_def load32_def be_word32_def masks32 bswap32_parts
  by (simp add: ac_simps)

lemma size_add_small: "a + b < 2 ^ 64 \<Longrightarrow> size_add a b = a + b"
  by (simp add: size_add_def)

text \<open>
  C6, as the code has it. Let the offset be below \<open>2 ^ 63\<close>, so that no \<^verbatim>\<open>size_t\<close> sum wraps.
  \<^verbatim>\<open>dnsasm_parse_rr\<close> decodes the name with \<^verbatim>\<open>dnsasm_decompress_name\<close> and returns its
  error if it has one. Otherwise, with \<open>n\<close> the bytes the name consumed, it fails with
  \<open>DNSASM_ERR_SHORT\<close> unless 10 more bytes stand after them, reads type, class, ttl and
  rdlength from these in network order, and fails with \<open>DNSASM_ERR_SHORT\<close> unless
  \<open>rdlength\<close> further bytes exist. On success \<open>rdata\<close> points into the packet just past the
  10 bytes, and \<open>wire_len\<close> is \<open>n + 10 + rdlength\<close> cut to 16 bits: the sum itself whenever
  it is below 65536, as it is for every packet of at most 65535 bytes.
\<close>

theorem parse_rr_decodes:
  assumes "offset < 2 ^ 63"
    and "dnsasm_decompress_name packet offset (rr_name rr) (rr_name_len rr) = (res, name', len')"
  shows
    "let n = unat (result_offset res);
         p = offset + n;
         rdl = unat (be_word16 packet (p + 8));
         rr1 = rr\<lparr>rr_name := name', rr_name_len := len'\<rparr>;
         rr2 = rr1\<lparr>rtype := be_word16 packet p, rclass := be_word16 packet (p + 2),
                   ttl := be_word32 packet (p + 4), rdlength := be_word16 packet (p + 8)\<rparr>
     in dnsasm_parse_rr packet offset rr =
          (if result_error res \<noteq> DNSASM_OK then Some (res, rr1)
           else if length packet < p + 10 then
             Some (\<lparr>result_error = DNSASM_ERR_SHORT, result_offset = 0\<rparr>, rr1)
           else if length packet < p + 10 + rdl then
             Some (\<lparr>result_error = DNSASM_ERR_SHORT, result_offset = 0\<rparr>, rr2)
           else
             Some (\<lparr>result_error = DNSASM_OK, result_offset = of_nat (p + 10 + rdl)\<rparr>,
                   rr2\<lparr>rdata := p + 10, rr_wire_len := of_nat (n + 10 + rdl)\<rparr>))
        \<and> (n + 10 + rdl < 2 ^ 16 \<longrightarrow> unat (of_nat (n + 10 + rdl) :: u16) = n + 10 + rdl)"
proof -
  define n where "n = unat (result_offset res)"
  define p where "p = offset + n"
  define rdl where "rdl = unat (be_word16 packet (p + 8))"
  have "n < 2 ^ 32"
    unfolding n_def using unsigned_less[of "result_offset res", where 'a = nat] by simp
  moreover have "rdl < 2 ^ 16"
    unfolding rdl_def using unsigned_less[of "be_word16 packet (p + 8)", where 'a = nat] by simp
  ultimately have small: "offset + n < 2 ^ 64" "p + 10 < 2 ^ 64" "p + 10 + rdl < 2 ^ 64"
    using assms(1) by (simp_all add: p_def)
  have s: "size_add offset n = p" "size_add p 10 = p + 10" "size_add (p + 10) rdl = p + 10 + rdl"
    using small by (simp_all add: size_add_small p_def)
  have "dnsasm_parse_rr packet offset rr =
          (if result_error res \<noteq> DNSASM_OK
           then Some (res, rr\<lparr>rr_name := name', rr_name_len := len'\<rparr>)
           else if length packet < p + 10 then
             Some (\<lparr>result_error = DNSASM_ERR_SHORT, result_offset = 0\<rparr>,
                   rr\<lparr>rr_name := name', rr_name_len := len'\<rparr>)
           else if length packet < p + 10 + rdl then
             Some (\<lparr>result_error = DNSASM_ERR_SHORT, result_offset = 0\<rparr>,
                   rr\<lparr>rr_name := name', rr_name_len := len',
                      rtype := be_word16 packet p, rclass := be_word16 packet (p + 2),
                      ttl := be_word32 packet (p + 4), rdlength := be_word16 packet (p + 8)\<rparr>)
           else
             Some (\<lparr>result_error = DNSASM_OK, result_offset = of_nat (p + 10 + rdl)\<rparr>,
                   rr\<lparr>rr_name := name', rr_name_len := len',
                      rtype := be_word16 packet p, rclass := be_word16 packet (p + 2),
                      ttl := be_word32 packet (p + 4), rdlength := be_word16 packet (p + 8),
                      rdata := p + 10, rr_wire_len := of_nat (n + 10 + rdl)\<rparr>))"
    unfolding dnsasm_parse_rr_def assms(2)
    by (simp only: prod.case Let_def n_def[symmetric] s bswap16_load16 bswap32_load32
          in_packet_def dnsasm_rr.simps)
       (simp add: rdl_def s[unfolded rdl_def])
  moreover have "n + 10 + rdl < 2 ^ 16 \<longrightarrow> unat (of_nat (n + 10 + rdl) :: u16) = n + 10 + rdl"
    using unat_of_nat_u16 by blast
  ultimately show ?thesis
    unfolding Let_def n_def[symmetric] p_def[symmetric] rdl_def[symmetric]
    by (intro conjI)
qed

lemma sample_response_name:
  "dnsasm_decompress_name sample_response 33 zero_buffer 0 =
     (\<lparr>result_error = DNSASM_OK, result_offset = 2\<rparr>,
      memcpy zero_buffer 0 (encode_labels www_example_com @ [0]), 17)"
proof -
  have c: "chain_at sample_response 33 [] [(12, www_example_com)]"
    using sample_response_hyps by (simp add: plain_name_at_def)
  have t: "terminator_at sample_response (chain_end 33 [] [(12, www_example_com)])"
    using sample_response_hyps by (simp add: plain_name_at_def)
  have l: "length (encode_labels (chain_labels [] [(12, www_example_com)])) = 16"
    by (simp add: chain_labels_def www_example_com_def encode_labels_def encode_label_def)
  from loop_chain_terminated[OF c _ t, of zero_buffer] l show ?thesis
    by (simp add: dnsasm_decompress_name_def chain_labels_def)
qed

lemma sample_response_fields:
  "be_word16 sample_response 35 = 1" "be_word16 sample_response 37 = 1"
  "be_word32 sample_response 39 = 300" "be_word16 sample_response 43 = 4"
  "length sample_response = 49"
  by (simp_all add: be_word16_def be_word32_def sample_response_def)

text \<open>
  The answer record of the sample response: ttl 300, rdlength 4, and the view at 45 holds
  \<^verbatim>\<open>5d b8 d8 22\<close>.
\<close>

theorem parse_rr_decodes_witness:
  "dnsasm_parse_rr sample_response 33 zero_rr =
     Some (\<lparr>result_error = DNSASM_OK, result_offset = 49\<rparr>,
           zero_rr\<lparr>rr_name := memcpy zero_buffer 0 (encode_labels www_example_com @ [0]),
             rr_name_len := 17, rtype := 1, rclass := 1, ttl := 300, rdlength := 4,
             rdata := 45, rr_wire_len := 16\<rparr>) \<and>
   take 4 (drop 45 sample_response) = [0x5d, 0xb8, 0xd8, 0x22]"
proof -
  have a: "(33 :: nat) < 2 ^ 63" by simp
  have b: "dnsasm_decompress_name sample_response 33 (rr_name zero_rr) (rr_name_len zero_rr) =
     (\<lparr>result_error = DNSASM_OK, result_offset = 2\<rparr>,
      memcpy zero_buffer 0 (encode_labels www_example_com @ [0]), 17)"
    by (simp add: zero_rr_def sample_response_name)
  show ?thesis
    using parse_rr_decodes[OF a b]
    by (simp add: Let_def sample_response_fields) (simp add: sample_response_def)
qed

lemma big_rr_fields:
  "length big_rr = 65546" "be_word16 big_rr 1 = 1" "be_word16 big_rr 3 = 1"
  "be_word32 big_rr 5 = 0" "be_word16 big_rr 9 = 65535"
  by (simp_all add: be_word16_def be_word32_def big_rr_def)

lemma big_rr_name:
  "dnsasm_decompress_name big_rr 0 out out_len =
     (\<lparr>result_error = DNSASM_OK, result_offset = 1\<rparr>, out(0 := 0), 1)"
  by (simp add: big_rr_def root_name)

lemma big_rr_parsed:
  "dnsasm_parse_rr big_rr 0 zero_rr =
     Some (\<lparr>result_error = DNSASM_OK, result_offset = 65546\<rparr>,
           zero_rr\<lparr>rr_name := zero_buffer(0 := 0), rr_name_len := 1, rtype := 1, rclass := 1,
             ttl := 0, rdlength := 65535, rdata := 11, rr_wire_len := 10\<rparr>)"
proof -
  have "size_add 0 1 = 1" "size_add 1 10 = 11" "size_add 11 65535 = 65546"
    by (simp_all add: size_add_def)
  then show ?thesis
    unfolding dnsasm_parse_rr_def big_rr_name
    by (simp add: Let_def in_packet_def bswap16_load16 bswap32_load32 big_rr_fields zero_rr_def)
       (simp add: be_word16_def big_rr_def)
qed

text \<open>
  C6 as stated fails on \<open>big_rr\<close>: the name takes 1 byte and \<open>rdlength\<close> is 65535, the call
  succeeds, and \<open>wire_len\<close> is 10, not 65546.
\<close>

theorem parse_rr_wire_len_truncated:
  "result_offset (fst (dnsasm_decompress_name big_rr 0 zero_buffer 0)) = 1 \<and>
   result_error (fst (the (dnsasm_parse_rr big_rr 0 zero_rr))) = DNSASM_OK \<and>
   unat (rdlength (snd (the (dnsasm_parse_rr big_rr 0 zero_rr)))) = 65535 \<and>
   unat (rr_wire_len (snd (the (dnsasm_parse_rr big_rr 0 zero_rr)))) = 10 \<and>
   unat (rr_wire_len (snd (the (dnsasm_parse_rr big_rr 0 zero_rr)))) \<noteq> 1 + 10 + 65535"
  by (simp add: big_rr_parsed big_rr_name)

text \<open>
  An offset within 10 of the largest \<^verbatim>\<open>size_t\<close> value: the name loop is not entered,
  \<open>pos + 10\<close> wraps to 9, the check for the 10 bytes passes, and the fields are read
  outside the packet.
\<close>

lemma parse_rr_offset_wraps:
  "dnsasm_parse_rr (replicate 20 0) (2 ^ 64 - 1) zero_rr = None"
proof -
  have "dnsasm_decompress_name (replicate 20 0) (2 ^ 64 - 1) out out_len =
          (\<lparr>result_error = DNSASM_OK, result_offset = 0\<rparr>, out, 0)" for out out_len
    by (simp add: dnsasm_decompress_name_def loop_stop)
  moreover have "size_add (2 ^ 64 - 1) 0 = 2 ^ 64 - 1" "size_add (2 ^ 64 - 1) 10 = 9"
    by (simp_all add: size_add_def)
  ultimately show ?thesis
    unfolding dnsasm_parse_rr_def
    by (simp add: Let_def in_packet_def)
qed

section \<open>The sample packets\<close>

text \<open>
  The query of the console program: the header has id \<open>0x1234\<close>, QR 0, RD 1 and one
  question; the question at offset 12 is \<^verbatim>\<open>www.example.com\<close>, type 1, class 1, and
  takes 21 bytes. A buffer shorter than 12 bytes is no header.
\<close>

lemma sample_query_header:
  "dnsasm_parse_header sample_query h =
     (DNSASM_OK,
      h\<lparr>id_hdr := 0x1234, flags := 0x0100, qdcount := 1, ancount := 0, nscount := 0,
        arcount := 0, qr := 0, opcode := 0, aa := 0, tc := 0, rd := 1, ra := 0, rcode := 0\<rparr>)"
  by (simp add: dnsasm_parse_header_def DNS_HEADER_SIZE_def sample_query_def Let_def
        bswap16_load16 be_word16_def)

lemma short_header:
  "length packet < 12 \<Longrightarrow> dnsasm_parse_header packet h = (DNSASM_ERR_SHORT, h)"
  by (simp add: dnsasm_parse_header_def DNS_HEADER_SIZE_def)

lemma sample_query_name:
  "dnsasm_decompress_name sample_query 12 out out_len =
     (\<lparr>result_error = DNSASM_OK, result_offset = 17\<rparr>,
      memcpy out 0 (encode_labels www_example_com @ [0]), 17)"
proof -
  have c: "chain_at sample_query 12 www_example_com []"
    by (simp add: sample_query_def www_example_com_def bytes_at_def encode_labels_def
          encode_label_def valid_label_def)
  have l: "length (encode_labels www_example_com) = 16"
    by (simp add: www_example_com_def encode_labels_def encode_label_def)
  have t: "terminator_at sample_query (chain_end 12 www_example_com [])"
    by (simp add: l terminator_at_def sample_query_def)
  from loop_chain_terminated[OF c _ t, of out] l show ?thesis
    by (simp add: dnsasm_decompress_name_def chain_labels_def)
qed

lemma sample_query_question:
  "dnsasm_parse_question sample_query 12 zero_question =
     Some (\<lparr>result_error = DNSASM_OK, result_offset = 33\<rparr>,
           zero_question\<lparr>q_name := memcpy zero_buffer 0 (encode_labels www_example_com @ [0]),
             q_name_len := 17, qtype := 1, qclass := 1, q_wire_len := 21\<rparr>)"
proof -
  have "size_add 12 17 = 29" "size_add 29 4 = 33"
    by (simp_all add: size_add_def)
  moreover have "length sample_query = 33" "be_word16 sample_query 29 = 1"
    "be_word16 sample_query 31 = 1"
    by (simp_all add: sample_query_def be_word16_def)
  ultimately show ?thesis
    unfolding dnsasm_parse_question_def sample_query_name
    by (simp add: Let_def in_packet_def bswap16_load16 zero_question_def)
qed

end
